theory Spec2Isabelle
  imports Main
begin

section \<open>Python values used by generate\_html.py\<close>

text \<open>
  A Python \<open>str\<close> is modelled as a \<open>string\<close>; one \<open>char\<close> stands for one code point
  below 256.  Exceptions are values of the type \<open>error\<close>, and a computation that may raise
  returns \<open>error + 'a\<close> with \<open>Inl\<close> carrying the exception.
\<close>

datatype error =
    IndexError
  | FileNotFoundError
  | KeyError
  | ValueError
  | SystemExit int

text \<open>\<open>xs[i]\<close> for a non-negative index \<open>i\<close>.\<close>

definition index :: "'a list \<Rightarrow> nat \<Rightarrow> error + 'a" where
  "index xs i = (if i < length xs then Inr (xs ! i) else Inl IndexError)"

text \<open>
  The characters \<open>str.split()\<close>, \<open>str.rstrip()\<close> treat as whitespace: code points 9 to 13,
  28 to 32, 133 and 160.
\<close>

definition isspace :: "char \<Rightarrow> bool" where
  "isspace c =
     (let n = (of_char c :: nat)
      in (9 \<le> n \<and> n \<le> 13) \<or> (28 \<le> n \<and> n \<le> 32) \<or> n = 133 \<or> n = 160)"

text \<open>
  \<open>str.lower()\<close>: the letters A to Z and the upper-case letters of the Latin-1 block
  (192 to 222 without the multiplication sign 215) move up by 32.
\<close>

definition lower_chr :: "char \<Rightarrow> char" where
  "lower_chr c =
     (let n = (of_char c :: nat)
      in if (65 \<le> n \<and> n \<le> 90) \<or> (192 \<le> n \<and> n \<le> 222 \<and> n \<noteq> 215)
         then char_of (n + 32) else c)"

definition lower :: "string \<Rightarrow> string" where
  "lower s = map lower_chr s"

text \<open>
  \<open>s.split()\<close> without a separator: skip whitespace, take the run of non-whitespace
  characters up to the next whitespace as a token, repeat.
\<close>

function split_ws :: "string \<Rightarrow> string list" where
  "split_ws s =
     (case dropWhile isspace s of
        [] \<Rightarrow> []
      | c # cs \<Rightarrow>
          (c # takeWhile (\<lambda>x. \<not> isspace x) cs) # split_ws (dropWhile (\<lambda>x. \<not> isspace x) cs))"
  by pat_completeness auto
termination
proof (relation "measure length")
  show "wf (measure length)" by simp
next
  fix s :: string and c cs
  assume a: "dropWhile isspace s = c # cs"
  have "length (dropWhile (\<lambda>x. \<not> isspace x) cs) \<le> length cs"
    by (rule length_dropWhile_le)
  moreover have "length (dropWhile isspace s) \<le> length s"
    by (rule length_dropWhile_le)
  ultimately show "(dropWhile (\<lambda>x. \<not> isspace x) cs, s) \<in> measure length"
    using a by simp
qed

declare split_ws.simps [simp del]

text \<open>\<open>s.replace(old, new)\<close> for a pattern \<open>old\<close> of exactly one character.\<close>

definition replace_chr :: "char \<Rightarrow> string \<Rightarrow> string \<Rightarrow> string" where
  "replace_chr old new s = concat (map (\<lambda>c. if c = old then new else [c]) s)"

text \<open>\<open>sep.join(xs)\<close>.\<close>

fun join :: "string \<Rightarrow> string list \<Rightarrow> string" where
  "join sep [] = []"
| "join sep [x] = x"
| "join sep (x # y # ys) = x @ sep @ join sep (y # ys)"

section \<open>The result parser: collect\_results\<close>

text \<open>
  The condition of the \<open>if\<close> in the loop of \<open>collect_results\<close>.  Python's \<open>or\<close> evaluates
  its right operand only when the left one is false; the third operand indexes twice and
  each indexing may raise.
\<close>

definition first_is_dash :: "string \<Rightarrow> error + bool" where
  "first_is_dash line =
     (case index (split_ws line) 0 of
        Inl e \<Rightarrow> Inl e
      | Inr tok \<Rightarrow> (case index tok 0 of Inl e \<Rightarrow> Inl e | Inr c \<Rightarrow> Inr (c = CHR ''-'')))"

definition skip_line :: "nat \<Rightarrow> string \<Rightarrow> error + bool" where
  "skip_line i line =
     (if i \<le> 2 then Inr True
      else if length (split_ws line) < 4 then Inr True
      else first_is_dash line)"

definition escape_line :: "string \<Rightarrow> string" where
  "escape_line line = replace_chr (CHR ''>'') ''&gt'' (replace_chr (CHR ''<'') ''&lt'' line)"

text \<open>
  The \<open>for\<close> loop over the lines of the report: \<open>i\<close> counts the lines read so far and
  \<open>test_list\<close> collects the records.
\<close>

fun collect_loop :: "nat \<Rightarrow> string list list \<Rightarrow> string list \<Rightarrow> error + string list list" where
  "collect_loop i test_list [] = Inr test_list"
| "collect_loop i test_list (line # rest) =
     (case skip_line (i + 1) line of
        Inl e \<Rightarrow> Inl e
      | Inr skip \<Rightarrow>
          if skip then collect_loop (i + 1) test_list rest
          else collect_loop (i + 1) (test_list @ [split_ws (escape_line line)]) rest)"


section \<open>Files and standard output\<close>

text \<open>
  The part of the outside world the script touches: the text files, by path, and what has
  been printed.  \<open>files w p\<close> is the text that reading the file at \<open>p\<close> yields, with line
  ends already translated to the line feed.
\<close>

record world =
  files :: "string \<rightharpoonup> string"
  stdout :: "string list"

definition nl :: string where
  "nl = [CHR 0x0A]"

definition read_text :: "world \<Rightarrow> string \<Rightarrow> error + string" where
  "read_text w fname =
     (case files w fname of None \<Rightarrow> Inl FileNotFoundError | Some text \<Rightarrow> Inr text)"

text \<open>The lines a file object yields: each ends after its line feed, the last may lack one.\<close>

fun readlines :: "string \<Rightarrow> string list" where
  "readlines [] = []"
| "readlines (c # cs) =
     (if c = CHR 0x0A then [c] # readlines cs
      else (case readlines cs of [] \<Rightarrow> [[c]] | l # ls \<Rightarrow> (c # l) # ls))"

text \<open>\<open>str(n)\<close> for a length.\<close>

function str_nat :: "nat \<Rightarrow> string" where
  "str_nat n =
     (if n < 10 then [char_of (48 + n)]
      else str_nat (n div 10) @ [char_of (48 + n mod 10)])"
  by pat_completeness auto
termination
  by (relation "measure id") auto

declare str_nat.simps [simp del]

text \<open>\<open>print(a, b, ...)\<close>: the arguments separated by one space, then a line feed.\<close>

definition print :: "string list \<Rightarrow> world \<Rightarrow> world" where
  "print args w = w\<lparr>stdout := stdout w @ [join '' '' args @ nl]\<rparr>"

definition collect_results :: "string \<Rightarrow> world \<Rightarrow> (error + string list list) \<times> world" where
  "collect_results testsfile w =
     (case read_text w testsfile of
        Inl e \<Rightarrow> (Inl e, w)
      | Inr text \<Rightarrow>
          (case collect_loop 0 [] (readlines text) of
             Inl e \<Rightarrow> (Inl e, w)
           | Inr test_list \<Rightarrow>
               (Inr test_list,
                print [''Total '', str_nat (length test_list), ''  tests''] w)))"

section \<open>The head parser and the head block\<close>

definition collect_head :: "string \<Rightarrow> world \<Rightarrow> error + string list list" where
  "collect_head headfile w =
     (case read_text w headfile of
        Inl e \<Rightarrow> Inl e
      | Inr text \<Rightarrow> Inr (map split_ws (readlines text)))"

definition create_head :: "string list list \<Rightarrow> error + string" where
  "create_head head_info =
     (case index head_info 0 of
        Inl e \<Rightarrow> Inl e
      | Inr line0 \<Rightarrow>
     (case index line0 0 of
        Inl e \<Rightarrow> Inl e
      | Inr path \<Rightarrow>
     (case index head_info 1 of
        Inl e \<Rightarrow> Inl e
      | Inr line1 \<Rightarrow>
     (case index line1 0 of
        Inl e \<Rightarrow> Inl e
      | Inr commit \<Rightarrow>
          Inr (concat
            [''<p>'' @ nl,
             ''<b>Regression test path: </b>'' @ path @ ''<br>'' @ nl,
             ''<b>Latest commit on test branch: </b>'' @ commit @ ''<br>'' @ nl,
             ''</p>'' @ nl])))))"

section \<open>The table renderer: create\_table\<close>

definition TABLE_HEADER :: "string list" where
  "TABLE_HEADER =
     [''Test ID'', ''Result ID'', ''Result Dir or Test Name'', ''Cycles'', ''Status'',
      ''Bucket'', ''Seed'']"

definition TABLE_STAT1 :: "string list" where
  "TABLE_STAT1 = [''Bucket'', ''Count'', ''Bucket Name'']"

definition TABLE_STAT2 :: "string list" where
  "TABLE_STAT2 = [''PASS'', ''FAIL'', ''No Status'', ''Total'', ''% Passing'']"

text \<open>The three lists of fragments and the two mode flags of the loop.\<close>

record tables =
  stat1_table :: "string list"
  stat2_table :: "string list"
  test_table :: "string list"
  stat1 :: bool
  stat2 :: bool

definition td_center :: "string \<Rightarrow> string" where
  "td_center item = ''<td class='center'>'' @ item @ ''</td>''"

definition td_left :: "string \<Rightarrow> string" where
  "td_left item = ''<td class='left'>'' @ item @ ''</td>''"

definition td_pass :: string where
  "td_pass =
     ''<td style='' @ [CHR 0x22] @ ''background-color:ForestGreen; color:White; text-align:center;''
       @ [CHR 0x22] @ ''>PASS</td>''"

definition td_fail :: string where
  "td_fail =
     ''<td style='' @ [CHR 0x22] @ ''background-color:Red; color:White; text-align:center;''
       @ [CHR 0x22] @ ''>Fail</td>''"

text \<open>The fragments appended for one token of a row of the main table.\<close>

definition render_item :: "string \<Rightarrow> string list" where
  "render_item item =
     (if lower item = ''pass'' then [td_pass, td_left []]
      else if lower item = ''fail'' then [td_fail]
      else [td_left item])"

text \<open>
  One pass through the body of the \<open>for\<close> loop.  \<open>test[0]\<close> raises on an empty row and
  \<open>test[1]\<close> on a row of one token; an exception leaves \<open>create_table\<close> at once.
\<close>

definition create_table_step :: "tables \<Rightarrow> string list \<Rightarrow> error + tables" where
  "create_table_step st test =
     (case index test 0 of
        Inl e \<Rightarrow> Inl e
      | Inr t0 \<Rightarrow>
          if lower t0 = ''bucket'' then Inr (st\<lparr>stat1 := True\<rparr>)
          else if lower t0 = ''pass'' then Inr (st\<lparr>stat2 := True, stat1 := False\<rparr>)
          else if stat1 st then
            (let bucketName = join '' '' (drop (length TABLE_STAT1 - 1) test)
             in case index test 1 of
                  Inl e \<Rightarrow> Inl e
                | Inr t1 \<Rightarrow>
                    Inr (st\<lparr>stat1_table := stat1_table st @
                           [''<tr>'', td_center t0, td_center t1, td_center bucketName,
                            ''</tr>'' @ nl]\<rparr>))
          else if stat2 st then
            Inr (st\<lparr>stat2_table := stat2_table st @
                   [''<tr>''] @ map td_center test @ [''</tr>'' @ nl],
                 stat2 := False\<rparr>)
          else
            Inr (st\<lparr>test_table := test_table st @
                   [''<tr>''] @ concat (map render_item test) @ [''</tr>'' @ nl]\<rparr>))"

fun create_table_loop :: "tables \<Rightarrow> string list list \<Rightarrow> error + tables" where
  "create_table_loop st [] = Inr st"
| "create_table_loop st (test # rest) =
     (case create_table_step st test of
        Inl e \<Rightarrow> Inl e
      | Inr st' \<Rightarrow> create_table_loop st' rest)"

definition thead_plain :: "string list \<Rightarrow> string" where
  "thead_plain table_header =
     ''<thead><tr><th>'' @ join ''</th><th>'' table_header @ ''</th></tr></thead>'' @ nl"

definition thead_blue :: "string list \<Rightarrow> string" where
  "thead_blue table_header =
     ''<thead style='' @ [CHR 0x22] @ ''background-color:CornflowerBlue; font-size:1em''
       @ [CHR 0x22] @ ''><tr><th>'' @ join ''</th><th>'' table_header
       @ ''</th></tr></thead>'' @ nl"

text \<open>The state before the loop: each table opened and its header row appended.\<close>

definition init_tables :: tables where
  "init_tables =
     \<lparr>stat1_table = [''<table>'', thead_blue TABLE_STAT1],
      stat2_table = [''<table>'', thead_blue TABLE_STAT2],
      test_table = [''<table>'', thead_plain TABLE_HEADER],
      stat1 = False,
      stat2 = False\<rparr>"

definition create_table :: "string list list \<Rightarrow> error + string" where
  "create_table test_list =
     (case create_table_loop init_tables test_list of
        Inl e \<Rightarrow> Inl e
      | Inr st \<Rightarrow>
          (let test_table = test_table st @
                 [''</tbody>'' @ nl, ''<tfoot></tfoot>'' @ nl, ''</table>'' @ nl];
               stat1_table = stat1_table st @
                 [''</tbody>'' @ nl, ''<tfoot></tfoot>'' @ nl, ''</table>'' @ nl, ''<p> </p>'' @ nl];
               stat2_table = stat2_table st @
                 [''</tbody>'' @ nl, ''<tfoot></tfoot>'' @ nl, ''</table>'' @ nl, ''<p> </p>'' @ nl];
               tables = stat1_table @ stat2_table @ test_table
           in Inr (join [] tables)))"

section \<open>The report composer: read\_file and create\_message\<close>

text \<open>\<open>x.rstrip()\<close> removes the whitespace at the end.\<close>

definition rstrip :: "string \<Rightarrow> string" where
  "rstrip x = rev (dropWhile isspace (rev x))"

text \<open>\<open>x.split(delim)\<close> for a delimiter of one character: the empty string gives one empty word.\<close>

fun split_on :: "char \<Rightarrow> string \<Rightarrow> string list" where
  "split_on delim [] = [[]]"
| "split_on delim (c # cs) =
     (if c = delim then [] # split_on delim cs
      else (case split_on delim cs of [] \<Rightarrow> [[c]] | t # ts \<Rightarrow> (c # t) # ts))"

text \<open>
  \<open>read_file(fname, delim)\<close>; \<open>None\<close> is the default and splits at whitespace, the only
  other delimiter the script passes has one character.
\<close>

definition read_file :: "string \<Rightarrow> char option \<Rightarrow> world \<Rightarrow> error + string list list" where
  "read_file fname delim w =
     (case read_text w fname of
        Inl e \<Rightarrow> Inl e
      | Inr text \<Rightarrow>
          (let data = readlines text;
               data = map rstrip data;
               lines = map (\<lambda>x. case delim of None \<Rightarrow> split_ws x | Some d \<Rightarrow> split_on d x) data
           in Inr lines))"

text \<open>
  \<open>string.Template(template).substitute(body=html)\<close>.  A dollar sign is followed by another
  dollar sign (giving one), by an identifier or by an identifier in braces (replaced by the
  value of that name, \<open>KeyError\<close> for a name other than \<open>body\<close>); any other dollar sign
  raises \<open>ValueError\<close>.  The leftmost failure is the one raised.
\<close>

definition is_id_start :: "char \<Rightarrow> bool" where
  "is_id_start c =
     (let n = (of_char c :: nat)
      in n = 95 \<or> (65 \<le> n \<and> n \<le> 90) \<or> (97 \<le> n \<and> n \<le> 122))"

definition is_id_char :: "char \<Rightarrow> bool" where
  "is_id_char c = (is_id_start c \<or> (let n = (of_char c :: nat) in 48 \<le> n \<and> n \<le> 57))"

function substitute :: "string \<Rightarrow> string \<Rightarrow> error + string" where
  "substitute body [] = Inr []"
| "substitute body (c # cs) =
     (if c \<noteq> CHR ''$'' then
        (case substitute body cs of Inl e \<Rightarrow> Inl e | Inr r \<Rightarrow> Inr (c # r))
      else
        (case cs of
           [] \<Rightarrow> Inl ValueError
         | d # ds \<Rightarrow>
             if d = CHR ''$'' then
               (case substitute body ds of Inl e \<Rightarrow> Inl e | Inr r \<Rightarrow> Inr (CHR ''$'' # r))
             else if is_id_start d then
               (if d # takeWhile is_id_char ds = ''body'' then
                  (case substitute body (dropWhile is_id_char ds) of
                     Inl e \<Rightarrow> Inl e
                   | Inr r \<Rightarrow> Inr (body @ r))
                else Inl KeyError)
             else if d = CHR ''{'' then
               (case ds of
                  [] \<Rightarrow> Inl ValueError
                | n # ns \<Rightarrow>
                    if is_id_start n then
                      (case dropWhile is_id_char ns of
                         [] \<Rightarrow> Inl ValueError
                       | b # rest \<Rightarrow>
                           if b = CHR ''}'' then
                             (if n # takeWhile is_id_char ns = ''body'' then
                                (case substitute body rest of
                                   Inl e \<Rightarrow> Inl e
                                 | Inr r \<Rightarrow> Inr (body @ r))
                              else Inl KeyError)
                           else Inl ValueError)
                    else Inl ValueError)
             else Inl ValueError))"
  by pat_completeness auto
termination
proof (relation "measure (\<lambda>(body, t). length t)")
  show "wf (measure (\<lambda>(body, t). length t))" by simp
next
  fix body :: string and c :: char and cs :: string
  show "((body, cs), (body, c # cs)) \<in> measure (\<lambda>(body, t). length t)" by simp
next
  fix body :: string and c :: char and cs :: string and d :: char and ds :: string
  assume "cs = d # ds"
  then show "((body, ds), (body, c # cs)) \<in> measure (\<lambda>(body, t). length t)" by simp
next
  fix body :: string and c :: char and cs :: string and d :: char and ds :: string
  assume a: "cs = d # ds"
  have "length (dropWhile is_id_char ds) \<le> length ds" by (rule length_dropWhile_le)
  then show "((body, dropWhile is_id_char ds), (body, c # cs)) \<in> measure (\<lambda>(body, t). length t)"
    unfolding a by simp
next
  fix body :: string and c :: char and cs :: string and d :: char and ds :: string
    and n :: char and ns :: string and b :: char and rest :: string
  assume a: "cs = d # ds" and b: "ds = n # ns" and c: "dropWhile is_id_char ns = b # rest"
  have "length (dropWhile is_id_char ns) \<le> length ns" by (rule length_dropWhile_le)
  then have "length rest < length ns" unfolding c by simp
  then show "((body, rest), (body, c # cs)) \<in> measure (\<lambda>(body, t). length t)"
    unfolding a b by simp
qed

declare substitute.simps [simp del]

text \<open>
  What \<open>create_message\<close> takes from its surroundings: the local time formatted by
  \<open>time.strftime("%Y%m%dT%H%M")\<close> and the path \<open>TEMPLATE_PATH\<close> of the template beside the
  script.
\<close>

record env =
  timestamp :: string
  TEMPLATE_PATH :: string

definition create_message ::
  "env \<Rightarrow> string list list \<Rightarrow> string list list \<Rightarrow> world \<Rightarrow> error + string" where
  "create_message ev test_list head_info w =
     (let title = ''UVM Regression Tests '' @ timestamp ev;
          html_title = ''<h1>'' @ title @ ''</h1>''
      in case create_head head_info of
           Inl e \<Rightarrow> Inl e
         | Inr html_head \<Rightarrow>
        (case create_table test_list of
           Inl e \<Rightarrow> Inl e
         | Inr html_tables \<Rightarrow>
        (case read_file (TEMPLATE_PATH ev) (Some (CHR 0x0A)) w of
           Inl e \<Rightarrow> Inl e
         | Inr template \<Rightarrow>
             (let template = map (join []) template;
                  template = join nl template;
                  html_report = html_title @ html_head @ html_tables
              in substitute html_report template))))"

section \<open>The notifier: create\_email\<close>

text \<open>The message built and then dropped: its headers in the order they are set, and its parts.\<close>

record message =
  headers :: "(string \<times> string) list"
  parts :: "string list"

definition create_email :: "string \<Rightarrow> string \<Rightarrow> string \<Rightarrow> world \<Rightarrow> error + message" where
  "create_email to_file cc_file html_report w =
     (let domain = ''intel.com'';
          user = ''psgpac'';
          sender_email = user @ ''@'' @ domain;
          message_subject =
            ''Regression results for OFS FIM UVM simulation --- test from Ling''
      in case read_text w to_file of
           Inl e \<Rightarrow> Inl e
         | Inr to_list \<Rightarrow>
        (case read_text w cc_file of
           Inl e \<Rightarrow> Inl e
         | Inr cc_list \<Rightarrow>
             Inr \<lparr>headers =
                    [(''Subject'', message_subject), (''From'', sender_email),
                     (''To'', to_list), (''CC'', cc_list),
                     (''X-Regtest-Title'', message_subject), (''X-Regtest-Failed'', []),
                     (''X-Regtest-Passed'', []), (''X-Regtest-Timeout'', []),
                     (''X-Regtest-Missing'', []), (''X-Regtest-Total'', [])],
                  parts = [html_report]\<rparr>))"

section \<open>The entry point\<close>

text \<open>\<open>p.rfind(c)\<close>: the index of the last \<open>c\<close> in \<open>p\<close>, or \<open>-1\<close>.\<close>

definition rfind :: "char \<Rightarrow> string \<Rightarrow> int" where
  "rfind c p =
     (if c \<in> set p then int (length p) - 1 - int (length (takeWhile (\<lambda>x. x \<noteq> c) (rev p)))
      else - 1)"

text \<open>
  The \<open>while\<close> loop of \<open>os.path.splitext\<close>: is there a character other than the dot from
  \<open>filenameIndex\<close> up to, not including, \<open>dotIndex\<close>?
\<close>

function skip_leading_dots :: "string \<Rightarrow> nat \<Rightarrow> nat \<Rightarrow> bool" where
  "skip_leading_dots p filenameIndex dotIndex =
     (if filenameIndex < dotIndex then
        (if take 1 (drop filenameIndex p) \<noteq> ''.'' then True
         else skip_leading_dots p (filenameIndex + 1) dotIndex)
      else False)"
  by pat_completeness auto
termination
  by (relation "measure (\<lambda>(p, filenameIndex, dotIndex). dotIndex - filenameIndex)") auto

declare skip_leading_dots.simps [simp del]

text \<open>\<open>os.path.splitext\<close> of \<open>posixpath\<close>: the separator is the slash, the extension starts at the
  last dot of the last component unless only dots precede it there.\<close>

definition splitext :: "string \<Rightarrow> string \<times> string" where
  "splitext p =
     (let sepIndex = rfind (CHR ''/'') p;
          dotIndex = rfind (CHR ''.'') p
      in if dotIndex > sepIndex \<and> skip_leading_dots p (nat (sepIndex + 1)) (nat dotIndex)
         then (take (nat dotIndex) p, drop (nat dotIndex) p)
         else (p, []))"

definition main ::
  "env \<Rightarrow> string \<Rightarrow> string \<Rightarrow> string \<Rightarrow> string \<Rightarrow> world \<Rightarrow> (error + unit) \<times> world" where
  "main ev to_email cc_email report_name head_name w0 =
     (let w1 = print [''to: '', to_email, nl @ ''cc: '', cc_email,
                      nl @ ''plain text report: '', report_name, nl @ ''head:'', head_name] w0
      in case collect_results report_name w1 of
           (Inl e, w2) \<Rightarrow> (Inl e, w2)
         | (Inr test_list, w2) \<Rightarrow>
        (case collect_head head_name w2 of
           Inl e \<Rightarrow> (Inl e, w2)
         | Inr head_info \<Rightarrow>
        (case create_message ev test_list head_info w2 of
           Inl e \<Rightarrow> (Inl e, w2)
         | Inr html_report \<Rightarrow>
        (case create_email to_email cc_email html_report w2 of
           Inl e \<Rightarrow> (Inl e, w2)
         | Inr msg \<Rightarrow>
             (let base = fst (splitext report_name);
                  html_file = base @ ''.html''
              in (Inr (), w2\<lparr>files := (files w2)(html_file \<mapsto> html_report)\<rparr>))))))"

definition usage :: string where
  "usage = ''Usage: generate_html.py to_email_list_file cc_email_list_file plain_text_test_report head_file_name''"

text \<open>
  The block under \<open>if __name__ == '__main__'\<close>, run with \<open>sys.argv = argv\<close>; \<open>exit(-1)\<close>
  raises \<open>SystemExit(-1)\<close>.  The four reads of \<open>sys.argv\<close> happen where its length is at
  least 5.
\<close>

definition script :: "env \<Rightarrow> string list \<Rightarrow> world \<Rightarrow> (error + unit) \<times> world" where
  "script ev argv w =
     (if length argv < 5 then (Inl (SystemExit (- 1)), print [usage] w)
      else main ev (argv ! 1) (argv ! 2) (argv ! 3) (argv ! 4) w)"

section \<open>The claims' own notions\<close>

text \<open>A list of tokens whose first token starts with the minus sign.\<close>

definition starts_with_dash :: "string list \<Rightarrow> bool" where
  "starts_with_dash toks =
     (case toks of [] \<Rightarrow> False | tok # _ \<Rightarrow> (case tok of [] \<Rightarrow> False | c # _ \<Rightarrow> c = CHR ''-''))"

text \<open>A line the parser is said to drop wherever it stands: fewer than four tokens, or a
  first token that starts with the minus sign.\<close>

definition dropped_line :: "string \<Rightarrow> bool" where
  "dropped_line line = (length (split_ws line) < 4 \<or> starts_with_dash (split_ws line))"

text \<open>The escape of one character: \<open><\<close> becomes \<open>&lt\<close>, \<open>>\<close> becomes \<open>&gt\<close>, no semicolon.\<close>

definition esc_chr :: "char \<Rightarrow> string" where
  "esc_chr c = (if c = CHR ''<'' then ''&lt'' else if c = CHR ''>'' then ''&gt'' else [c])"

text \<open>A small report: two head lines, a short line, a separator line and one result line.\<close>

definition report_example :: string where
  "report_example =
     ''Regression report'' @ nl @ ''a b c d e'' @ nl @ ''x y z'' @ nl @ ''-- - - - -'' @ nl
       @ ''t1 r1 <x> 5 PASS'' @ nl"

text \<open>
  The upper-case letter of a lower-case letter \<open>a\<close> to \<open>z\<close>: 32 code points below.
\<close>

definition upper_chr :: "char \<Rightarrow> char" where
  "upper_chr c = char_of ((of_char c :: nat) - 32)"

text \<open>
  Being equal to a word case-insensitively: \<open>spellings w\<close> lists every way of writing the
  lower-case word \<open>w\<close> with each letter in lower or in upper case.
\<close>

fun spellings :: "string \<Rightarrow> string list" where
  "spellings [] = [[]]"
| "spellings (c # cs) = concat (map (\<lambda>x. map (\<lambda>r. x # r) (spellings cs)) [c, upper_chr c])"

text \<open>
  The letters \<open>a\<close> to \<open>z\<close>.
\<close>

definition small_letter :: "char \<Rightarrow> bool" where
  "small_letter c = (97 \<le> (of_char c :: nat) \<and> (of_char c :: nat) \<le> 122)"

text \<open>
  A row whose first token is the word \<open>w\<close>, case-insensitively.
\<close>

definition leads :: "string \<Rightarrow> string list \<Rightarrow> bool" where
  "leads w test = (case test of [] \<Rightarrow> False | t0 # _ \<Rightarrow> t0 \<in> set (spellings w))"


text \<open>
  A bucket-stat row: the first two tokens and the remaining tokens joined by spaces.
\<close>

fun bucket_row :: "string list \<Rightarrow> string list" where
  "bucket_row (t0 # t1 # rest) =
     [''<tr>'', td_center t0, td_center t1, td_center (join '' '' rest), ''</tr>'' @ nl]"
| "bucket_row _ = []"

text \<open>
  A summary row: one cell for each token.
\<close>

definition summary_row :: "string list \<Rightarrow> string list" where
  "summary_row test = [''<tr>''] @ map td_center test @ [''</tr>'' @ nl]"


text \<open>
  The rows among the fragments of a table: for each \<open><tr>\<close> the cells up to the end of the row.
\<close>

fun rows_of :: "string list \<Rightarrow> string list list" where
  "rows_of [] = []"
| "rows_of (f # fs) =
     (if f = ''<tr>'' then takeWhile (\<lambda>x. x \<noteq> ''</tr>'' @ nl) fs # rows_of fs else rows_of fs)"

text \<open>
  The token stream of claim C1.
\<close>

definition mode_switch_example :: "string list list" where
  "mode_switch_example =
     [[''bucket'', ''1'', ''2'', ''groupA''],
      [''b1'', ''3'', ''myBucket''],
      [''pass''],
      [''10'', ''2'', ''0'', ''12'', ''83%''],
      [''t1'', ''r1'', ''name'', ''5'', ''PASS'', ''b1'', ''42'']]"

text \<open>
  The rows \<open>create_table\<close> has put into the bucket table, the summary table and the main
  table when its loop ends.
\<close>

definition rendered_rows ::
  "string list list \<Rightarrow> error + (string list list \<times> string list list \<times> string list list)" where
  "rendered_rows test_list =
     (case create_table_loop init_tables test_list of
        Inl e \<Rightarrow> Inl e
      | Inr st \<Rightarrow> Inr (rows_of (stat1_table st), rows_of (stat2_table st), rows_of (test_table st)))"

text \<open>
  The number of plain cells with a token in a row: all but the coloured and the empty ones.
\<close>

definition plain_cells :: "string list \<Rightarrow> nat" where
  "plain_cells row = length (filter (\<lambda>c. c \<noteq> td_pass \<and> c \<noteq> td_fail \<and> c \<noteq> td_left []) row)"

text \<open>
  The number of such cells in each row of the main table.
\<close>

definition plain_cell_counts :: "string list list \<Rightarrow> nat list" where
  "plain_cell_counts test_list =
     (case rendered_rows test_list of Inl e \<Rightarrow> [] | Inr (b, s, n) \<Rightarrow> map plain_cells n)"

text \<open>
  A world with the five files of one run: the recipients, the report, the head file of two
  lines and a template with the placeholder.
\<close>

definition world_example :: world where
  "world_example =
     \<lparr>files = [''to.txt'' \<mapsto> ''a@example.org'', ''cc.txt'' \<mapsto> ''b@example.org'',
               ''out/r.v2.txt'' \<mapsto> report_example,
               ''head.txt'' \<mapsto> ''/work/regress'' @ nl @ ''0123abc'' @ nl,
               ''email_template.css'' \<mapsto> ''<html>'' @ nl @ ''$body'' @ nl @ ''</html>'' @ nl],
      stdout = []\<rparr>"

text \<open>
  A time stamp and the place of the template.
\<close>

definition env_example :: env where
  "env_example = \<lparr>timestamp = ''20240101T1200'', TEMPLATE_PATH = ''email_template.css''\<rparr>"

section \<open>Whitespace splitting\<close>

lemma split_ws_Nil: "split_ws [] = []" by (subst split_ws.simps) simp

lemma split_ws_unfold_Nil: "dropWhile isspace s = [] \<Longrightarrow> split_ws s = []"
  by (subst split_ws.simps) (simp only: list.case)

lemma split_ws_unfold_Cons:
  "dropWhile isspace s = c # cs \<Longrightarrow>
   split_ws s = (c # takeWhile (\<lambda>x. \<not> isspace x) cs) # split_ws (dropWhile (\<lambda>x. \<not> isspace x) cs)"
  by (subst split_ws.simps) (simp only: list.case)

lemma dropWhile_Cons_not: "dropWhile P s = c # cs \<Longrightarrow> \<not> P c"
  by (metis hd_dropWhile list.sel(1) list.discI)

lemma split_ws_tokens: "t \<in> set (split_ws s) \<Longrightarrow> t \<noteq> [] \<and> (\<forall>c\<in>set t. \<not> isspace c)"
proof (induction s rule: split_ws.induct)
  case (1 s)
  show ?case
  proof (cases "dropWhile isspace s")
    case Nil
    with "1.prems" show ?thesis by (simp only: split_ws_unfold_Nil[OF Nil] list.set empty_iff)
  next
    case (Cons c cs)
    have c: "\<not> isspace c" using Cons by (rule dropWhile_Cons_not)
    from "1.prems" have "t = c # takeWhile (\<lambda>x. \<not> isspace x) cs \<or> t \<in> set (split_ws (dropWhile (\<lambda>x. \<not> isspace x) cs))"
      unfolding split_ws_unfold_Cons[OF Cons] by simp
    then show ?thesis
    proof
      assume "t = c # takeWhile (\<lambda>x. \<not> isspace x) cs"
      moreover have "\<forall>x\<in>set (takeWhile (\<lambda>x. \<not> isspace x) cs). \<not> isspace x"
        by (auto dest: set_takeWhileD)
      ultimately show ?thesis using c by simp
    next
      assume "t \<in> set (split_ws (dropWhile (\<lambda>x. \<not> isspace x) cs))"
      then show ?thesis by (rule "1.IH"[OF Cons])
    qed
  qed
qed

lemma dropWhile_concat_map:
  assumes "\<And>c. P c \<Longrightarrow> f c = [c]" and "\<And>c. \<not> P c \<Longrightarrow> f c \<noteq> [] \<and> (\<forall>d\<in>set (f c). \<not> P d)"
  shows "dropWhile P (concat (map f s)) = concat (map f (dropWhile P s))"
proof (induction s)
  case Nil show ?case by simp
next
  case (Cons a s)
  show ?case
  proof (cases "P a")
    case True then show ?thesis using Cons assms(1) by simp
  next
    case False
    then obtain d ds where d: "f a = d # ds" "\<not> P d" using assms(2)[of a] by (cases "f a") auto
    then show ?thesis using False by simp
  qed
qed

lemma takeWhile_not_concat_map:
  assumes "\<And>c. P c \<Longrightarrow> f c = [c]" and "\<And>c. \<not> P c \<Longrightarrow> f c \<noteq> [] \<and> (\<forall>d\<in>set (f c). \<not> P d)"
  shows "takeWhile (\<lambda>x. \<not> P x) (concat (map f s)) = concat (map f (takeWhile (\<lambda>x. \<not> P x) s))"
proof (induction s)
  case Nil show ?case by simp
next
  case (Cons a s)
  show ?case
  proof (cases "P a")
    case True then show ?thesis using assms(1) by simp
  next
    case False
    then have "\<forall>d\<in>set (f a). \<not> P d" using assms(2) by simp
    then have "takeWhile (\<lambda>x. \<not> P x) (f a @ concat (map f s)) = f a @ takeWhile (\<lambda>x. \<not> P x) (concat (map f s))"
      by (simp add: takeWhile_append2)
    then show ?thesis using False Cons by simp
  qed
qed

lemma dropWhile_not_concat_map:
  assumes "\<And>c. P c \<Longrightarrow> f c = [c]" and "\<And>c. \<not> P c \<Longrightarrow> f c \<noteq> [] \<and> (\<forall>d\<in>set (f c). \<not> P d)"
  shows "dropWhile (\<lambda>x. \<not> P x) (concat (map f s)) = concat (map f (dropWhile (\<lambda>x. \<not> P x) s))"
proof (induction s)
  case Nil show ?case by simp
next
  case (Cons a s)
  show ?case
  proof (cases "P a")
    case True then show ?thesis using assms(1) by simp
  next
    case False
    then have "\<forall>d\<in>set (f a). \<not> P d" using assms(2) by simp
    then have "dropWhile (\<lambda>x. \<not> P x) (f a @ concat (map f s)) = dropWhile (\<lambda>x. \<not> P x) (concat (map f s))"
      by (simp add: dropWhile_append2)
    then show ?thesis using False Cons by simp
  qed
qed

lemma split_ws_concat_map:
  assumes sp: "\<And>c. isspace c \<Longrightarrow> f c = [c]"
    and ns: "\<And>c. \<not> isspace c \<Longrightarrow> f c \<noteq> [] \<and> (\<forall>d\<in>set (f c). \<not> isspace d)"
  shows "split_ws (concat (map f s)) = map (\<lambda>t. concat (map f t)) (split_ws s)"
proof (induction s rule: split_ws.induct)
  case (1 s)
  have dw: "dropWhile isspace (concat (map f s)) = concat (map f (dropWhile isspace s))"
    using sp ns by (rule dropWhile_concat_map)
  show ?case
  proof (cases "dropWhile isspace s")
    case Nil
    have "dropWhile isspace (concat (map f s)) = []" unfolding dw Nil by simp
    then show ?thesis by (simp only: split_ws_unfold_Nil[OF Nil] split_ws_unfold_Nil list.map)
  next
    case (Cons c cs)
    have c: "\<not> isspace c" using Cons by (rule dropWhile_Cons_not)
    then obtain d ds where d: "f c = d # ds" "\<not> isspace d" "\<forall>x\<in>set ds. \<not> isspace x"
      using ns[of c] by (cases "f c") auto
    have dw': "dropWhile isspace (concat (map f s)) = d # (ds @ concat (map f cs))"
      unfolding dw Cons using d(1) by simp
    have tw: "takeWhile (\<lambda>x. \<not> isspace x) (ds @ concat (map f cs)) = ds @ concat (map f (takeWhile (\<lambda>x. \<not> isspace x) cs))"
      using d(3) takeWhile_not_concat_map[of isspace f cs, OF sp ns] by (simp add: takeWhile_append2)
    have dr: "dropWhile (\<lambda>x. \<not> isspace x) (ds @ concat (map f cs)) = concat (map f (dropWhile (\<lambda>x. \<not> isspace x) cs))"
      using d(3) dropWhile_not_concat_map[of isspace f cs, OF sp ns] by (simp add: dropWhile_append2)
    have "split_ws (concat (map f s)) =
            (d # takeWhile (\<lambda>x. \<not> isspace x) (ds @ concat (map f cs))) #
            split_ws (dropWhile (\<lambda>x. \<not> isspace x) (ds @ concat (map f cs)))"
      by (rule split_ws_unfold_Cons[OF dw'])
    also have "\<dots> = (d # ds @ concat (map f (takeWhile (\<lambda>x. \<not> isspace x) cs))) #
            split_ws (concat (map f (dropWhile (\<lambda>x. \<not> isspace x) cs)))"
      by (simp only: tw dr)
    also have "\<dots> = concat (map f (c # takeWhile (\<lambda>x. \<not> isspace x) cs)) #
            map (\<lambda>t. concat (map f t)) (split_ws (dropWhile (\<lambda>x. \<not> isspace x) cs))"
      by (simp only: "1.IH"[OF Cons] d(1) list.map concat.simps append_Cons)
    also have "\<dots> = map (\<lambda>t. concat (map f t)) (split_ws s)"
      by (simp only: split_ws_unfold_Cons[OF Cons] list.map)
    finally show ?thesis .
  qed
qed

section \<open>Properties of the result parser\<close>

lemma escape_line_concat: "escape_line l = concat (map esc_chr l)"
  by (induction l) (simp_all add: escape_line_def replace_chr_def esc_chr_def)

lemma esc_chr_space: "isspace c \<Longrightarrow> esc_chr c = [c]"
  by (auto simp: esc_chr_def isspace_def)

lemma esc_chr_nonspace: "\<not> isspace c \<Longrightarrow> esc_chr c \<noteq> [] \<and> (\<forall>d\<in>set (esc_chr c). \<not> isspace d)"
  by (simp add: esc_chr_def isspace_def)

lemma split_ws_escape: "split_ws (escape_line l) = map escape_line (split_ws l)"
proof -
  have "split_ws (concat (map esc_chr l)) = map (\<lambda>t. concat (map esc_chr t)) (split_ws l)"
    using esc_chr_space esc_chr_nonspace by (rule split_ws_concat_map)
  then show ?thesis by (simp add: escape_line_concat[abs_def])
qed

lemma first_is_dash_eq:
  "first_is_dash line = (if split_ws line = [] then Inl IndexError else Inr (starts_with_dash (split_ws line)))"
proof (cases "split_ws line")
  case Nil
  then show ?thesis by (simp add: first_is_dash_def index_def)
next
  case (Cons tok rest)
  then have "tok \<in> set (split_ws line)" by simp
  then have "tok \<noteq> []" by (auto dest: split_ws_tokens)
  then obtain c cs where "tok = c # cs" by (cases tok) auto
  then show ?thesis using Cons by (simp add: first_is_dash_def index_def starts_with_dash_def)
qed

lemma skip_line_eq: "skip_line i line = Inr (i \<le> 2 \<or> dropped_line line)"
proof -
  have "4 \<le> length (split_ws line) \<Longrightarrow> split_ws line \<noteq> []" by auto
  then show ?thesis
    by (auto simp: skip_line_def dropped_line_def first_is_dash_eq)
qed

lemma collect_loop_eq:
  "collect_loop i acc ls =
     Inr (acc @ map (\<lambda>l. split_ws (escape_line l)) (filter (\<lambda>l. \<not> dropped_line l) (drop (2 - i) ls)))"
proof (induction ls arbitrary: i acc)
  case Nil
  show ?case by simp
next
  case (Cons line rest)
  show ?case
  proof (cases "i + 1 \<le> 2")
    case True
    then have "2 - i = Suc (2 - (i + 1))" by arith
    then have "drop (2 - i) (line # rest) = drop (2 - (i + 1)) rest"
      by (simp only: drop_Suc_Cons)
    then show ?thesis using True Cons.IH[of "i + 1" acc] by (simp add: skip_line_eq)
  next
    case False
    then have d: "drop (2 - i) (line # rest) = line # rest" "drop (2 - (i + 1)) rest = rest" by auto
    show ?thesis
      using False Cons.IH[of "i + 1"] by (simp add: skip_line_eq d del: drop_Suc_Cons)
  qed
qed

lemma starts_with_dash_escape: "starts_with_dash (map escape_line toks) = starts_with_dash toks"
proof (cases toks)
  case Nil then show ?thesis by simp
next
  case (Cons tok rest)
  show ?thesis
  proof (cases tok)
    case Nil
    then show ?thesis using Cons by (simp add: starts_with_dash_def escape_line_concat)
  next
    case (Cons c cs)
    then show ?thesis using \<open>toks = tok # rest\<close>
      by (simp add: starts_with_dash_def escape_line_concat esc_chr_def)
  qed
qed


lemma collect_results_eq:
  "files w testsfile = Some text \<Longrightarrow>
   fst (collect_results testsfile w) =
     Inr (map (\<lambda>l. split_ws (escape_line l))
           (filter (\<lambda>l. \<not> dropped_line l) (drop 2 (readlines text))))"
  by (simp add: collect_results_def read_text_def collect_loop_eq)

lemma collect_results_missing:
  "files w testsfile = None \<Longrightarrow> fst (collect_results testsfile w) = Inl FileNotFoundError"
  by (simp add: collect_results_def read_text_def)

lemma dropped_line_escape: "dropped_line l \<Longrightarrow> \<not> dropped_line l' \<Longrightarrow>
   split_ws (escape_line l) \<noteq> split_ws (escape_line l')"
proof
  assume d: "dropped_line l" and n: "\<not> dropped_line l'"
    and e: "split_ws (escape_line l) = split_ws (escape_line l')"
  from e have m: "map escape_line (split_ws l) = map escape_line (split_ws l')"
    by (simp only: split_ws_escape)
  then have "length (split_ws l) = length (split_ws l')"
    by (rule map_eq_imp_length_eq)
  moreover have "starts_with_dash (split_ws l) = starts_with_dash (split_ws l')"
    using starts_with_dash_escape[of "split_ws l"] starts_with_dash_escape[of "split_ws l'"] m
    by simp
  ultimately show False using d n by (simp add: dropped_line_def)
qed

text \<open>
  Claim C2.  The result parser drops the first two lines of the report, every line with fewer
  than four whitespace-separated tokens and every line whose first token starts with the minus
  sign, and no other line: its output is, in order, the record of every other line.  No record
  of a line with fewer than four tokens or with a first token starting with the minus sign
  occurs anywhere in the output.
\<close>

theorem C2_dropped_lines:
  assumes "files w testsfile = Some text"
  shows "fst (collect_results testsfile w) =
           Inr (map (\<lambda>l. split_ws (escape_line l))
                 (filter (\<lambda>l. \<not> dropped_line l) (drop 2 (readlines text))))
         \<and> (\<forall>r l. fst (collect_results testsfile w) = Inr r \<longrightarrow> dropped_line l \<longrightarrow>
                split_ws (escape_line l) \<notin> set r)"
proof -
  let ?kept = "filter (\<lambda>l. \<not> dropped_line l) (drop 2 (readlines text))"
  have eq: "fst (collect_results testsfile w) = Inr (map (\<lambda>l. split_ws (escape_line l)) ?kept)"
    using assms by (rule collect_results_eq)
  have "split_ws (escape_line l) \<notin> set (map (\<lambda>l. split_ws (escape_line l)) ?kept)"
    if "dropped_line l" for l
  proof
    assume "split_ws (escape_line l) \<in> set (map (\<lambda>l. split_ws (escape_line l)) ?kept)"
    then obtain l' where "l' \<in> set ?kept" "split_ws (escape_line l) = split_ws (escape_line l')"
      by auto
    then show False using dropped_line_escape[OF that, of l'] by simp
  qed
  then show ?thesis using eq by simp
qed

text \<open>The report \<open>report_example\<close>: only its last line is kept.\<close>

theorem C2_dropped_lines_witness:
  "fst (collect_results ''r.txt'' \<lparr>files = [''r.txt'' \<mapsto> report_example], stdout = []\<rparr>) =
     Inr [[''t1'', ''r1'', ''&ltx&gt'', ''5'', ''PASS'']]
   \<and> dropped_line ''x y z'' \<and> dropped_line ''-- - - - -''"
proof -
  have h: "files \<lparr>files = [''r.txt'' \<mapsto> report_example], stdout = []\<rparr> ''r.txt'' = Some report_example"
    by simp
  have e: "map (\<lambda>l. split_ws (escape_line l))
             (filter (\<lambda>l. \<not> dropped_line l) (drop 2 (readlines report_example))) =
           [[''t1'', ''r1'', ''&ltx&gt'', ''5'', ''PASS'']]"
    by code_simp
  have d: "dropped_line ''x y z''" "dropped_line ''-- - - - -''" by code_simp+
  from C2_dropped_lines[OF h] d show ?thesis by (simp only: e)
qed

text \<open>
  Claim C3.  Every record of the output is the whitespace split of its line after the two
  replacements; the replacements turn each \<open><\<close> into \<open>&lt\<close> and each \<open>>\<close> into \<open>&gt\<close> and
  leave every other character alone, so the record is the list of the escaped tokens of the
  line, and a line with the token \<open><x>\<close> gives a record with the token \<open>&ltx&gt\<close>.
\<close>

theorem C3_escaping:
  assumes "files w testsfile = Some text"
  shows "fst (collect_results testsfile w) =
           Inr (map (\<lambda>l. split_ws (escape_line l))
                 (filter (\<lambda>l. \<not> dropped_line l) (drop 2 (readlines text))))
         \<and> escape_line line = concat (map esc_chr line)
         \<and> split_ws (escape_line line) = map escape_line (split_ws line)
         \<and> (''<x>'' \<in> set (split_ws line) \<longrightarrow> ''&ltx&gt'' \<in> set (split_ws (escape_line line)))"
proof -
  have "escape_line ''<x>'' = ''&ltx&gt''"
    by (simp add: escape_line_def replace_chr_def)
  then have "''<x>'' \<in> set (split_ws line) \<Longrightarrow> ''&ltx&gt'' \<in> set (map escape_line (split_ws line))"
    by (metis imageI set_map)
  then show ?thesis
    using collect_results_eq[OF assms] escape_line_concat[of line] split_ws_escape[of line]
    by simp
qed

text \<open>The last line of \<open>report_example\<close> holds the token \<open><x>\<close>.\<close>

theorem C3_escaping_witness:
  "fst (collect_results ''r.txt'' \<lparr>files = [''r.txt'' \<mapsto> report_example], stdout = []\<rparr>) =
     Inr [[''t1'', ''r1'', ''&ltx&gt'', ''5'', ''PASS'']]
   \<and> ''<x>'' \<in> set (split_ws ''t1 r1 <x> 5 PASS'')
   \<and> ''&ltx&gt'' \<in> set (split_ws (escape_line ''t1 r1 <x> 5 PASS''))"
proof -
  have h: "files \<lparr>files = [''r.txt'' \<mapsto> report_example], stdout = []\<rparr> ''r.txt'' = Some report_example"
    by simp
  have e: "map (\<lambda>l. split_ws (escape_line l))
             (filter (\<lambda>l. \<not> dropped_line l) (drop 2 (readlines report_example))) =
           [[''t1'', ''r1'', ''&ltx&gt'', ''5'', ''PASS'']]"
    by code_simp
  have m: "''<x>'' \<in> set (split_ws ''t1 r1 <x> 5 PASS'')" by code_simp
  from C3_escaping[OF h, of "''t1 r1 <x> 5 PASS''"] m show ?thesis unfolding e by blast
qed

text \<open>
  Claim C8.  The condition of the loop never raises: it is true for the first two lines and
  for lines with fewer than four tokens without looking at the first token, and otherwise
  tells whether the first token starts with the minus sign.  Taken alone, the double
  indexing raises exactly on a line without tokens.  Hence the loop and \<open>collect_results\<close>
  never end in an \<open>IndexError\<close>.
\<close>

theorem C8_separator_check_never_fails:
  "skip_line i line =
     Inr (i \<le> 2 \<or> length (split_ws line) < 4 \<or> starts_with_dash (split_ws line))
   \<and> (first_is_dash line = Inl IndexError \<longleftrightarrow> split_ws line = [])
   \<and> (\<exists>r. collect_loop i test_list lines = Inr r)
   \<and> fst (collect_results testsfile w) \<noteq> Inl IndexError"
proof -
  have a: "skip_line i line =
     Inr (i \<le> 2 \<or> length (split_ws line) < 4 \<or> starts_with_dash (split_ws line))"
    by (simp add: skip_line_eq dropped_line_def)
  have b: "first_is_dash line = Inl IndexError \<longleftrightarrow> split_ws line = []"
    by (simp add: first_is_dash_eq)
  have c: "\<exists>r. collect_loop i test_list lines = Inr r"
    by (simp add: collect_loop_eq)
  have d: "fst (collect_results testsfile w) \<noteq> Inl IndexError"
  proof (cases "files w testsfile = None")
    case True
    then show ?thesis by (simp add: collect_results_missing)
  next
    case False
    then obtain t where "files w testsfile = Some t" by auto
    then show ?thesis by (simp add: collect_results_eq)
  qed
  from a b c d show ?thesis by blast
qed

text \<open>A separator line and an empty line, each as the third line of a report.\<close>

theorem C8_separator_check_never_fails_witness:
  "skip_line 3 ''--- -- -- --'' = Inr True \<and> skip_line 3 [] = Inr True
   \<and> first_is_dash [] = Inl IndexError"
proof -
  have e: "(3::nat) \<le> 2 \<or> length (split_ws ''--- -- -- --'') < 4 \<or> starts_with_dash (split_ws ''--- -- -- --'')"
    by code_simp
  have f: "split_ws [] = []" by (rule split_ws_Nil)
  show ?thesis
    using C8_separator_check_never_fails[of 3 "''--- -- -- --''"]
      C8_separator_check_never_fails[of 3 "[]"] e f
    by simp
qed

text \<open>
  Claim C9.  Escaping a line does not change the number of its tokens, since the replacement
  texts hold no whitespace; so every record of the output has at least four tokens.
\<close>

theorem C9_records_have_four_tokens:
  "length (split_ws (escape_line line)) = length (split_ws line)
   \<and> (\<forall>c\<in>set ''&lt'' \<union> set ''&gt''. \<not> isspace c)
   \<and> (\<forall>r. fst (collect_results testsfile w) = Inr r \<longrightarrow> (\<forall>rec\<in>set r. 4 \<le> length rec))"
proof -
  have a: "length (split_ws (escape_line l)) = length (split_ws l)" for l
    by (simp add: split_ws_escape)
  have b: "\<forall>c\<in>set ''&lt'' \<union> set ''&gt''. \<not> isspace c"
    by (simp add: isspace_def)
  have c: "\<forall>rec\<in>set r. 4 \<le> length rec" if r: "fst (collect_results testsfile w) = Inr r" for r
  proof (cases "files w testsfile = None")
    case True
    then show ?thesis using r by (simp add: collect_results_missing)
  next
    case False
    then obtain t where Some: "files w testsfile = Some t" by auto
    have "r = map (\<lambda>l. split_ws (escape_line l))
                (filter (\<lambda>l. \<not> dropped_line l) (drop 2 (readlines t)))"
      using r collect_results_eq[OF Some] by simp
    then show ?thesis by (auto simp: a dropped_line_def)
  qed
  from a b c show ?thesis by blast
qed

text \<open>The record of the last line of \<open>report_example\<close> has five tokens.\<close>

theorem C9_records_have_four_tokens_witness:
  "length (split_ws (escape_line ''t1 r1 <x> 5 PASS'')) = 5
   \<and> fst (collect_results ''r.txt'' \<lparr>files = [''r.txt'' \<mapsto> report_example], stdout = []\<rparr>) =
       Inr [[''t1'', ''r1'', ''&ltx&gt'', ''5'', ''PASS'']]
   \<and> 4 \<le> length [''t1'', ''r1'', ''&ltx&gt'', ''5'', ''PASS'']"
proof -
  have h: "files \<lparr>files = [''r.txt'' \<mapsto> report_example], stdout = []\<rparr> ''r.txt'' = Some report_example"
    by simp
  have e: "map (\<lambda>l. split_ws (escape_line l))
             (filter (\<lambda>l. \<not> dropped_line l) (drop 2 (readlines report_example))) =
           [[''t1'', ''r1'', ''&ltx&gt'', ''5'', ''PASS'']]"
    by code_simp
  have g: "fst (collect_results ''r.txt'' \<lparr>files = [''r.txt'' \<mapsto> report_example], stdout = []\<rparr>) =
     Inr [[''t1'', ''r1'', ''&ltx&gt'', ''5'', ''PASS'']]"
    using collect_results_eq[OF h] by (simp only: e)
  have n: "length (split_ws ''t1 r1 <x> 5 PASS'') = 5" by code_simp
  from C9_records_have_four_tokens[of "''t1 r1 <x> 5 PASS''" "''r.txt''"
      "\<lparr>files = [''r.txt'' \<mapsto> report_example], stdout = []\<rparr>"] g n
  show ?thesis by auto
qed

section \<open>Properties of the table renderer\<close>

lemma lower_chr_iff:
  assumes "small_letter t"
  shows "lower_chr x = t \<longleftrightarrow> x = t \<or> x = upper_chr t"
proof -
  let ?n = "of_char x :: nat" and ?m = "of_char t :: nat"
  have m: "97 \<le> ?m" "?m \<le> 122" using assms by (auto simp: small_letter_def)
  have n: "?n < 256" by simp
  have up: "x = upper_chr t \<longleftrightarrow> ?n = ?m - 32"
  proof
    assume "x = upper_chr t"
    then show "?n = ?m - 32" using m by (simp add: upper_chr_def)
  next
    assume "?n = ?m - 32"
    then have "char_of ?n = (char_of (?m - 32) :: char)" by simp
    then show "x = upper_chr t" by (simp add: upper_chr_def)
  qed
  have eq: "x = t \<longleftrightarrow> ?n = ?m" by simp
  show ?thesis
  proof (cases "(65 \<le> ?n \<and> ?n \<le> 90) \<or> (192 \<le> ?n \<and> ?n \<le> 222 \<and> ?n \<noteq> 215)")
    case True
    have "lower_chr x = char_of (?n + 32)" unfolding lower_chr_def Let_def by (rule if_P[OF True])
    moreover have "(char_of (?n + 32) = t) \<longleftrightarrow> (?n + 32) mod 256 = ?m"
      by (metis char_of_char char_of_quasi_inj of_char_mod_256)
    moreover have "(?n + 32) mod 256 = ?n + 32"
    proof -
      have "?n + 32 < 256" using True by arith
      then show ?thesis by (rule mod_less)
    qed
    ultimately have "lower_chr x = t \<longleftrightarrow> ?n + 32 = ?m" by simp
    then show ?thesis unfolding up eq using True m by auto
  next
    case False
    have "lower_chr x = x" unfolding lower_chr_def Let_def by (rule if_not_P[OF False])
    then show ?thesis unfolding up eq using False m by auto
  qed
qed

lemma lower_spellings:
  "\<forall>c\<in>set w. small_letter c \<Longrightarrow> lower t = w \<longleftrightarrow> t \<in> set (spellings w)"
proof (induction w arbitrary: t)
  case Nil
  show ?case by (simp add: lower_def)
next
  case (Cons c cs)
  have c: "small_letter c" and cs: "\<forall>c\<in>set cs. small_letter c" using Cons.prems by auto
  show ?case
  proof (cases t)
    case Nil
    then show ?thesis by (auto simp: lower_def)
  next
    case (Cons x xs)
    have "lower xs = cs \<longleftrightarrow> xs \<in> set (spellings cs)" using Cons.IH[OF cs] .
    then show ?thesis using Cons lower_chr_iff[OF c, of x] by (auto simp: lower_def)
  qed
qed

lemma small_letters_words:
  "\<forall>c\<in>set ''pass''. small_letter c" "\<forall>c\<in>set ''fail''. small_letter c"
  "\<forall>c\<in>set ''bucket''. small_letter c"
  by (simp_all add: small_letter_def)

lemma lower_pass: "lower t = ''pass'' \<longleftrightarrow> t \<in> set (spellings ''pass'')"
  using small_letters_words(1) by (rule lower_spellings)


lemma lower_bucket: "lower t = ''bucket'' \<longleftrightarrow> t \<in> set (spellings ''bucket'')"
  using small_letters_words(3) by (rule lower_spellings)


lemma step_Nil: "create_table_step st [] = Inl IndexError"
  by (simp add: create_table_step_def index_def)

lemma step_bucket:
  "leads ''bucket'' test \<Longrightarrow> create_table_step st test = Inr (st\<lparr>stat1 := True\<rparr>)"
  by (cases test) (simp_all add: leads_def create_table_step_def index_def lower_bucket)

lemma bucket_not_pass: "lower t = ''bucket'' \<Longrightarrow> lower t \<noteq> ''pass''"
  by simp

lemma step_pass:
  assumes "leads ''pass'' test"
  shows "create_table_step st test = Inr (st\<lparr>stat2 := True, stat1 := False\<rparr>)"
proof (cases test)
  case Nil
  then show ?thesis using assms by (simp add: leads_def)
next
  case (Cons t0 ts)
  have p: "lower t0 = ''pass''" using assms Cons by (simp add: leads_def lower_pass)
  then have b: "lower t0 \<noteq> ''bucket''" by simp
  show ?thesis unfolding Cons create_table_step_def index_def using p b by simp
qed

lemma step_bucket_stat:
  assumes "\<not> leads ''bucket'' (t0 # t1 # rest)" "\<not> leads ''pass'' (t0 # t1 # rest)" "stat1 st"
  shows "create_table_step st (t0 # t1 # rest) =
           Inr (st\<lparr>stat1_table := stat1_table st @ bucket_row (t0 # t1 # rest)\<rparr>)"
  using assms
  by (simp add: leads_def create_table_step_def index_def lower_bucket lower_pass TABLE_STAT1_def)

lemma step_short:
  assumes "\<not> leads ''bucket'' [t0]" "\<not> leads ''pass'' [t0]" "stat1 st"
  shows "create_table_step st [t0] = Inl IndexError"
  using assms
  by (simp add: leads_def create_table_step_def index_def lower_bucket lower_pass TABLE_STAT1_def)

lemma step_summary:
  assumes "test \<noteq> []" "\<not> leads ''bucket'' test" "\<not> leads ''pass'' test" "\<not> stat1 st" "stat2 st"
  shows "create_table_step st test =
           Inr (st\<lparr>stat2_table := stat2_table st @ summary_row test, stat2 := False\<rparr>)"
  using assms
  by (cases test)
     (simp_all add: leads_def create_table_step_def index_def lower_bucket lower_pass summary_row_def)







lemma rendered_rows_example:
  "rendered_rows mode_switch_example =
     Inr ([[td_center ''b1'', td_center ''3'', td_center ''myBucket'']],
          [[td_center ''10'', td_center ''2'', td_center ''0'', td_center ''12'', td_center ''83%'']],
          [[td_left ''t1'', td_left ''r1'', td_left ''name'', td_left ''5'', td_pass, td_left [],
            td_left ''b1'', td_left ''42'']])"
  by code_simp

text \<open>
  Claim C1 as stated fails on its own token stream: the row of the main table has six plain
  cells with a token, not five.  Moreover a row of one token in bucket mode is not emitted
  as a bucket-stat row: reading its second token raises.
\<close>

theorem C1_counterexample:
  "plain_cell_counts mode_switch_example = [6] \<and> plain_cell_counts mode_switch_example \<noteq> [5]
   \<and> create_table_step (init_tables\<lparr>stat1 := True\<rparr>) [''b1''] = Inl IndexError"
proof -
  have s: "create_table_step (init_tables\<lparr>stat1 := True\<rparr>) [''b1''] = Inl IndexError"
    by (rule step_short) (simp_all add: leads_def upper_chr_def)
  have "plain_cells [td_left ''t1'', td_left ''r1'', td_left ''name'', td_left ''5'', td_pass,
          td_left [], td_left ''b1'', td_left ''42''] = 6"
    by code_simp
  then have "plain_cell_counts mode_switch_example = [6]"
    by (simp add: plain_cell_counts_def rendered_rows_example)
  then show ?thesis using s by simp
qed

text \<open>
  Claim C1, amended.  A row led by \<open>bucket\<close> sets the bucket flag and emits nothing; a row led
  by \<open>pass\<close> sets the summary flag, clears the bucket flag and emits nothing; in bucket mode
  every other row of two tokens at least is emitted as a bucket-stat row; in summary mode
  (bucket flag off) the next other row is emitted as a summary row and the summary flag is
  cleared.  For the token stream of the claim the bucket table gets the one row
  \<open>b1, 3, myBucket\<close>, the summary table one row of five cells, and the main table one row of
  four plain cells, the green PASS cell, an empty cell and two more plain cells.
\<close>

theorem C1_mode_switch:
  "(leads ''bucket'' test \<longrightarrow> create_table_step st test = Inr (st\<lparr>stat1 := True\<rparr>))
   \<and> (leads ''pass'' test \<longrightarrow>
        create_table_step st test = Inr (st\<lparr>stat2 := True, stat1 := False\<rparr>))
   \<and> (\<not> leads ''bucket'' test \<and> \<not> leads ''pass'' test \<and> 2 \<le> length test \<and> stat1 st \<longrightarrow>
        create_table_step st test =
          Inr (st\<lparr>stat1_table := stat1_table st @ bucket_row test\<rparr>))
   \<and> (\<not> leads ''bucket'' test \<and> \<not> leads ''pass'' test \<and> test \<noteq> [] \<and> \<not> stat1 st \<and> stat2 st \<longrightarrow>
        create_table_step st test =
          Inr (st\<lparr>stat2_table := stat2_table st @ summary_row test, stat2 := False\<rparr>))
   \<and> rendered_rows mode_switch_example =
        Inr ([[td_center ''b1'', td_center ''3'', td_center ''myBucket'']],
             [[td_center ''10'', td_center ''2'', td_center ''0'', td_center ''12'',
               td_center ''83%'']],
             [[td_left ''t1'', td_left ''r1'', td_left ''name'', td_left ''5'', td_pass,
               td_left [], td_left ''b1'', td_left ''42'']])"
proof -
  have c: "create_table_step st test =
          Inr (st\<lparr>stat1_table := stat1_table st @ bucket_row test\<rparr>)"
    if h: "\<not> leads ''bucket'' test" "\<not> leads ''pass'' test" "2 \<le> length test" "stat1 st"
  proof -
    obtain t0 t1 ts where t: "test = t0 # t1 # ts"
      using h(3) by (cases test; cases "tl test") auto
    show ?thesis using step_bucket_stat[of t0 t1 ts st] h unfolding t by simp
  qed
  show ?thesis
    using step_bucket[of test st] step_pass[of test st] c step_summary[of test st]
      rendered_rows_example
    by blast
qed

text \<open>
  The four kinds of step on rows of the claim's token stream.
\<close>

theorem C1_mode_switch_witness:
  "create_table_step init_tables [''Bucket'', ''1'', ''2'', ''groupA''] =
     Inr (init_tables\<lparr>stat1 := True\<rparr>)
   \<and> create_table_step (init_tables\<lparr>stat1 := True\<rparr>) [''PASS''] =
     Inr (init_tables\<lparr>stat1 := True, stat2 := True, stat1 := False\<rparr>)
   \<and> create_table_step (init_tables\<lparr>stat1 := True\<rparr>) [''b1'', ''3'', ''myBucket''] =
     Inr (init_tables\<lparr>stat1 := True,
            stat1_table := stat1_table (init_tables\<lparr>stat1 := True\<rparr>) @
              bucket_row [''b1'', ''3'', ''myBucket'']\<rparr>)
   \<and> create_table_step (init_tables\<lparr>stat2 := True\<rparr>) [''10'', ''2'', ''0'', ''12'', ''83%''] =
     Inr (init_tables\<lparr>stat2 := True,
            stat2_table := stat2_table (init_tables\<lparr>stat2 := True\<rparr>) @
              summary_row [''10'', ''2'', ''0'', ''12'', ''83%''],
            stat2 := False\<rparr>)"
proof -
  have a: "leads ''bucket'' [''Bucket'', ''1'', ''2'', ''groupA'']" by code_simp
  have b: "leads ''pass'' [''PASS'']" by code_simp
  have c: "\<not> leads ''bucket'' [''b1'', ''3'', ''myBucket''] \<and>
           \<not> leads ''pass'' [''b1'', ''3'', ''myBucket''] \<and>
           2 \<le> length [''b1'', ''3'', ''myBucket''] \<and> stat1 (init_tables\<lparr>stat1 := True\<rparr>)"
    by (simp add: leads_def upper_chr_def)
  have d: "\<not> leads ''bucket'' [''10'', ''2'', ''0'', ''12'', ''83%''] \<and>
           \<not> leads ''pass'' [''10'', ''2'', ''0'', ''12'', ''83%''] \<and>
           [''10'', ''2'', ''0'', ''12'', ''83%''] \<noteq> [] \<and>
           \<not> stat1 (init_tables\<lparr>stat2 := True\<rparr>) \<and> stat2 (init_tables\<lparr>stat2 := True\<rparr>)"
    by (simp add: leads_def upper_chr_def init_tables_def)
  from C1_mode_switch[of "[''Bucket'', ''1'', ''2'', ''groupA'']" init_tables] a
  have 1: "create_table_step init_tables [''Bucket'', ''1'', ''2'', ''groupA''] =
     Inr (init_tables\<lparr>stat1 := True\<rparr>)" by blast
  from C1_mode_switch[of "[''PASS'']" "init_tables\<lparr>stat1 := True\<rparr>"] b
  have 2: "create_table_step (init_tables\<lparr>stat1 := True\<rparr>) [''PASS''] =
     Inr (init_tables\<lparr>stat1 := True, stat2 := True, stat1 := False\<rparr>)" by blast
  from C1_mode_switch[of "[''b1'', ''3'', ''myBucket'']" "init_tables\<lparr>stat1 := True\<rparr>"] c
  have 3: "create_table_step (init_tables\<lparr>stat1 := True\<rparr>) [''b1'', ''3'', ''myBucket''] =
     Inr (init_tables\<lparr>stat1 := True,
            stat1_table := stat1_table (init_tables\<lparr>stat1 := True\<rparr>) @
              bucket_row [''b1'', ''3'', ''myBucket'']\<rparr>)" by blast
  from C1_mode_switch[of "[''10'', ''2'', ''0'', ''12'', ''83%'']" "init_tables\<lparr>stat2 := True\<rparr>"] d
  have 4: "create_table_step (init_tables\<lparr>stat2 := True\<rparr>) [''10'', ''2'', ''0'', ''12'', ''83%''] =
     Inr (init_tables\<lparr>stat2 := True,
            stat2_table := stat2_table (init_tables\<lparr>stat2 := True\<rparr>) @
              summary_row [''10'', ''2'', ''0'', ''12'', ''83%''],
            stat2 := False\<rparr>)" by blast
  from 1 2 3 4 show ?thesis by (intro conjI)
qed

section \<open>Properties of the head block and the entry point\<close>

lemma create_head_short: "length head_info < 2 \<Longrightarrow> create_head head_info = Inl IndexError"
proof -
  assume "length head_info < 2"
  then consider "head_info = []" | l0 where "head_info = [l0]"
    by (cases head_info; cases "tl head_info") auto
  then show ?thesis
  proof cases
    case 1
    then show ?thesis by (simp add: create_head_def index_def)
  next
    case 2
    then show ?thesis by (cases l0) (simp_all add: create_head_def index_def)
  qed
qed

lemma print_files: "files (print args w) = files w"
  by (simp add: print_def)

lemma collect_results_world:
  "files w testsfile = Some t \<Longrightarrow>
   \<exists>r w'. collect_results testsfile w = (Inr r, w') \<and> files w' = files w"
  by (simp add: collect_results_def read_text_def collect_loop_eq print_files)

text \<open>
  Claim C5.  The head parser returns the token list of every line of the head file, none
  filtered out.  If the file has fewer than two lines, \<open>create_head\<close> raises \<open>IndexError\<close>, so does
  \<open>create_message\<close>, and so does \<open>main\<close> once the report has been read.
\<close>

theorem C5_short_head_file:
  assumes "files w head_name = Some content" "length (readlines content) < 2"
  shows "collect_head head_name w = Inr (map split_ws (readlines content))
       \<and> create_head (map split_ws (readlines content)) = Inl IndexError
       \<and> create_message ev test_list (map split_ws (readlines content)) w = Inl IndexError
       \<and> (files w report_name \<noteq> None \<longrightarrow>
            fst (main ev to_email cc_email report_name head_name w) = Inl IndexError)"
proof -
  let ?head = "map split_ws (readlines content)"
  have a: "collect_head head_name w' = Inr ?head" if "files w' = files w" for w'
    using assms(1) that by (simp add: collect_head_def read_text_def)
  have b: "create_head ?head = Inl IndexError"
    using assms(2) by (simp add: create_head_short)
  have c: "create_message ev recs ?head w' = Inl IndexError" for recs w'
    by (simp add: create_message_def b)
  have d: "fst (main ev to_email cc_email report_name head_name w) = Inl IndexError"
    if "files w report_name \<noteq> None"
  proof -
    let ?w1 = "print [''to: '', to_email, nl @ ''cc: '', cc_email,
                      nl @ ''plain text report: '', report_name, nl @ ''head:'', head_name] w"
    from that obtain t where "files ?w1 report_name = Some t" by (auto simp: print_files)
    then obtain r w2 where r: "collect_results report_name ?w1 = (Inr r, w2)" "files w2 = files ?w1"
      using collect_results_world by blast
    have "files w2 = files w" using r(2) by (simp add: print_files)
    then show ?thesis using r(1) a c by (simp add: main_def)
  qed
  from a[of w] b c[of test_list w] d show ?thesis by simp
qed

text \<open>
  The example world with a head file of one line.
\<close>

theorem C5_short_head_file_witness:
  "create_head (map split_ws (readlines ''/work/regress'')) = Inl IndexError
   \<and> fst (main env_example ''to.txt'' ''cc.txt'' ''out/r.v2.txt'' ''head.txt''
        (world_example\<lparr>files := (files world_example)(''head.txt'' \<mapsto> ''/work/regress'')\<rparr>)) =
      Inl IndexError"
proof -
  let ?w = "world_example\<lparr>files := (files world_example)(''head.txt'' \<mapsto> ''/work/regress'')\<rparr>"
  have h: "files ?w ''head.txt'' = Some ''/work/regress''" by simp
  have l: "length (readlines ''/work/regress'') < 2" by code_simp
  have r: "files ?w ''out/r.v2.txt'' \<noteq> None" by (simp add: world_example_def)
  from C5_short_head_file[OF h l, of env_example "[]" "''out/r.v2.txt''" "''to.txt''" "''cc.txt''"] r
  show ?thesis by blast
qed

text \<open>
  Claim C6.  With fewer than five entries in \<open>sys.argv\<close> the script prints the usage line and
  raises \<open>SystemExit(-1)\<close>; nothing else is printed and no file changes.  With five or more it
  runs \<open>main\<close> on the entries 1 to 4.
\<close>

theorem C6_argument_count:
  "(length argv < 5 \<longrightarrow>
      script ev argv w = (Inl (SystemExit (- 1)), w\<lparr>stdout := stdout w @ [usage @ nl]\<rparr>))
   \<and> (5 \<le> length argv \<longrightarrow>
      script ev argv w = main ev (argv ! 1) (argv ! 2) (argv ! 3) (argv ! 4) w)"
  by (simp add: script_def print_def)

text \<open>
  Three arguments after the program name, then four.
\<close>

theorem C6_argument_count_witness:
  "script env_example [''generate_html.py'', ''to.txt'', ''cc.txt'', ''out/r.v2.txt''] world_example =
     (Inl (SystemExit (- 1)), world_example\<lparr>stdout := stdout world_example @ [usage @ nl]\<rparr>)
   \<and> script env_example [''generate_html.py'', ''to.txt'', ''cc.txt'', ''out/r.v2.txt'', ''head.txt'']
        world_example =
     main env_example ''to.txt'' ''cc.txt'' ''out/r.v2.txt'' ''head.txt'' world_example"
  using C6_argument_count[of "[''generate_html.py'', ''to.txt'', ''cc.txt'', ''out/r.v2.txt'']"
      env_example world_example]
    C6_argument_count[of "[''generate_html.py'', ''to.txt'', ''cc.txt'', ''out/r.v2.txt'', ''head.txt'']"
      env_example world_example]
  by simp

lemma main_example: "fst (main env_example ''to.txt'' ''cc.txt'' ''out/r.v2.txt'' ''head.txt'' world_example) = Inr ()"
  by code_simp

lemma rfind_none: "c \<notin> set p \<Longrightarrow> rfind c p = - 1"
  by (simp add: rfind_def)

lemma rfind_split:
  assumes "c \<in> set p"
  shows "\<exists>pre post. p = pre @ c # post \<and> c \<notin> set post \<and> rfind c p = int (length pre)"
proof -
  let ?tw = "takeWhile (\<lambda>x. x \<noteq> c) (rev p)" and ?dw = "dropWhile (\<lambda>x. x \<noteq> c) (rev p)"
  have "c \<in> set (rev p)" using assms by simp
  then have "?dw \<noteq> []" by (auto simp: dropWhile_eq_Nil_conv)
  then obtain y ys where dw: "?dw = y # ys" by (cases ?dw) auto
  have "\<not> y \<noteq> c" using dw by (rule dropWhile_Cons_not)
  then have y: "y = c" by simp
  have "rev p = ?tw @ ?dw" by simp
  then have "rev p = ?tw @ c # ys" unfolding dw y .
  then have "rev (rev p) = rev (?tw @ c # ys)" by (rule arg_cong)
  then have p: "p = rev ys @ c # rev ?tw" by simp
  have n: "c \<notin> set (rev ?tw)" by (auto dest: set_takeWhileD)
  have "length p = length ys + 1 + length ?tw"
    by (subst p) simp
  then have "rfind c p = int (length (rev ys))"
    using assms by (simp add: rfind_def)
  with p n show ?thesis by blast
qed

lemma rfind_ge:
  assumes "p = a @ c # b"
  shows "int (length a) \<le> rfind c p"
proof -
  have "c \<in> set p" using assms by simp
  then obtain pre post where s: "p = pre @ c # post" "c \<notin> set post" "rfind c p = int (length pre)"
    using rfind_split by blast
  have "length a \<le> length pre"
  proof (rule ccontr)
    assume "\<not> length a \<le> length pre"
    then have lt: "length pre < length a" by simp
    have "p ! length a = c" unfolding assms by simp
    moreover have "p ! length a = post ! (length a - length pre - 1)"
      unfolding s(1) using lt by (simp add: nth_append nth_Cons')
    moreover have "length a < length p" unfolding assms by simp
    then have "length a - length pre - 1 < length post"
      unfolding s(1) using lt by simp
    ultimately have "c \<in> set post" by (metis nth_mem)
    then show False using s(2) by simp
  qed
  then show ?thesis using s(3) by simp
qed

lemma splitext_append: "fst (splitext p) @ snd (splitext p) = p"
  by (simp add: splitext_def Let_def)

lemma splitext_ext:
  "snd (splitext p) = [] \<or>
   (\<exists>post. snd (splitext p) = CHR ''.'' # post \<and> CHR ''.'' \<notin> set post \<and> CHR ''/'' \<notin> set post)"
proof (cases "rfind (CHR ''/'') p < rfind (CHR ''.'') p \<and>
    skip_leading_dots p (nat (rfind (CHR ''/'') p + 1)) (nat (rfind (CHR ''.'') p))")
  case False
  then show ?thesis by (auto simp: splitext_def Let_def)
next
  case True
  have "- 1 \<le> rfind (CHR ''/'') p"
    using length_takeWhile_le[of "\<lambda>x. x \<noteq> CHR ''/''" "rev p"] by (simp add: rfind_def)
  then have "0 \<le> rfind (CHR ''.'') p" using True by simp
  then have "CHR ''.'' \<in> set p" using rfind_none[of "CHR ''.''" p] by force
  then obtain pre post where s: "p = pre @ CHR ''.'' # post" "CHR ''.'' \<notin> set post"
      "rfind (CHR ''.'') p = int (length pre)"
    using rfind_split by blast
  have "CHR ''/'' \<notin> set post"
  proof
    assume "CHR ''/'' \<in> set post"
    then obtain u v where "post = u @ CHR ''/'' # v" by (auto simp: in_set_conv_decomp)
    then have "p = (pre @ CHR ''.'' # u) @ CHR ''/'' # v" using s(1) by simp
    then have "int (length (pre @ CHR ''.'' # u)) \<le> rfind (CHR ''/'') p" by (rule rfind_ge)
    then show False using True s(3) by simp
  qed
  moreover have "snd (splitext p) = drop (length pre) p"
    using True s(3) by (simp add: splitext_def Let_def)
  then have "snd (splitext p) = CHR ''.'' # post" unfolding s(1) by simp
  ultimately show ?thesis using s(2) by simp
qed

text \<open>
  Claim C7.  \<open>os.path.splitext\<close> cuts the report path into a base and an extension that
  together are the path; the extension is empty or a dot followed by characters other than
  the dot and the slash.  When \<open>main\<close> returns, the one file it has written is the base
  followed by \<open>.html\<close>.
\<close>

theorem C7_html_path:
  "fst (splitext report_name) @ snd (splitext report_name) = report_name
   \<and> (snd (splitext report_name) = [] \<or>
      (\<exists>post. snd (splitext report_name) = CHR ''.'' # post \<and> CHR ''.'' \<notin> set post
         \<and> CHR ''/'' \<notin> set post))
   \<and> (\<forall>u w'. main ev to_email cc_email report_name head_name w = (Inr u, w') \<longrightarrow>
        (\<exists>html. files w' = (files w)(fst (splitext report_name) @ ''.html'' \<mapsto> html)))"
proof -
  have "\<exists>html. files w' = (files w)(fst (splitext report_name) @ ''.html'' \<mapsto> html)"
    if m: "main ev to_email cc_email report_name head_name w = (Inr u, w')" for u w'
  proof -
    let ?w1 = "print [''to: '', to_email, nl @ ''cc: '', cc_email,
                      nl @ ''plain text report: '', report_name, nl @ ''head:'', head_name] w"
    obtain res w2 where cr: "collect_results report_name ?w1 = (res, w2)" by (cases "collect_results report_name ?w1")
    have f2: "files w2 = files w"
      using cr by (auto simp: collect_results_def read_text_def print_files split: option.splits sum.splits)
    show ?thesis
      using m cr f2
      by (auto simp: main_def Let_def split: sum.splits)
  qed
  then show ?thesis using splitext_append[of report_name] splitext_ext[of report_name] by blast
qed

text \<open>
  A full run on the example world: \<open>out/r.v2.txt\<close> gives \<open>out/r.v2.html\<close>.
\<close>

theorem C7_html_path_witness:
  "fst (main env_example ''to.txt'' ''cc.txt'' ''out/r.v2.txt'' ''head.txt'' world_example) = Inr ()
   \<and> splitext ''out/r.v2.txt'' = (''out/r.v2'', ''.txt'')
   \<and> files (snd (main env_example ''to.txt'' ''cc.txt'' ''out/r.v2.txt'' ''head.txt'' world_example))
        ''out/r.v2.html'' \<noteq> None"
proof -
  let ?m = "main env_example ''to.txt'' ''cc.txt'' ''out/r.v2.txt'' ''head.txt'' world_example"
  have r: "fst ?m = Inr ()" by (rule main_example)
  then have m: "?m = (Inr (), snd ?m)" by (metis prod.collapse)
  have s: "splitext ''out/r.v2.txt'' = (''out/r.v2'', ''.txt'')" by code_simp
  from C7_html_path[of "''out/r.v2.txt''" env_example "''to.txt''" "''cc.txt''" "''head.txt''" world_example] m
  obtain html where "files (snd ?m) = (files world_example)(fst (splitext ''out/r.v2.txt'') @ ''.html'' \<mapsto> html)"
    by blast
  then have "files (snd ?m) ''out/r.v2.html'' = Some html" unfolding s by simp
  then show ?thesis using r s by simp
qed

end
